theory Spec2Isabelle
  imports Main "HOL-Library.Multiset"
begin

section \<open>Python strings\<close>

text \<open>
  A Python \<open>str\<close> is a sequence of Unicode code points; a code point is a natural
  number. \<open>str\<close> turns an ASCII literal into such a sequence.
\<close>

type_synonym pystr = "nat list"

definition str :: "string \<Rightarrow> pystr" where
  "str s = map of_char s"

text \<open>
  \<open>str.isspace\<close>: the code points Python treats as whitespace. The same set is used
  by \<open>\s\<close> of the \<open>re\<close> module on \<open>str\<close> patterns and by \<open>str.strip()\<close> without arguments.
\<close>

definition isspace :: "nat \<Rightarrow> bool" where
  "isspace c \<longleftrightarrow>
     (9 \<le> c \<and> c \<le> 13) \<or> (28 \<le> c \<and> c \<le> 32) \<or> c = 133 \<or> c = 160 \<or> c = 5760 \<or>
     (8192 \<le> c \<and> c \<le> 8202) \<or> c = 8232 \<or> c = 8233 \<or> c = 8239 \<or> c = 8287 \<or> c = 12288"

text \<open>
  \<open>\d\<close> on a \<open>str\<close> pattern: any code point of the Unicode category Nd. Every run of
  decimal digits has ten members; the table lists the code point of each zero
  (Unicode 14).
\<close>

definition decimal_zeros :: "nat list" where
  "decimal_zeros =
     [1632, 1776, 1984, 2406, 2534, 2662, 2790, 2918, 3046, 3174, 3302, 3430, 3558,
      3664, 3792, 3872, 4160, 4240, 6112, 6160, 6470, 6608, 6784, 6800, 6992, 7088, 7232,
      7248, 42528, 43216, 43264, 43472, 43504, 43600, 44016, 65296, 66720, 68912, 69734,
      69872, 69942, 70096, 70384, 70736, 70864, 71248, 71360, 71472, 71904, 72016, 72784,
      73040, 73120, 92768, 92864, 93008, 120782, 120792, 120802, 120812, 120822, 123200,
      123632, 125264, 130032]"

definition isdecimal :: "nat \<Rightarrow> bool" where
  "isdecimal c \<longleftrightarrow>
     (if c < 128 then 48 \<le> c \<and> c \<le> 57
      else list_ex (\<lambda>z. z \<le> c \<and> c \<le> z + 9) decimal_zeros)"

definition strip :: "pystr \<Rightarrow> pystr" where
  "strip s = rev (dropWhile isspace (rev (dropWhile isspace s)))"

fun startswith :: "pystr \<Rightarrow> pystr \<Rightarrow> bool" where
  "startswith s [] = True"
| "startswith [] (p # ps) = False"
| "startswith (c # s) (p # ps) = (c = p \<and> startswith s ps)"

text \<open>\<open>sub in s\<close>: \<open>sub\<close> occurs in \<open>s\<close> as a contiguous substring.\<close>

fun contains :: "pystr \<Rightarrow> pystr \<Rightarrow> bool" where
  "contains [] sub = (sub = [])"
| "contains (c # s) sub = (startswith (c # s) sub \<or> contains s sub)"

text \<open>\<open>s.endswith(suffix)\<close>.\<close>

definition endswith :: "pystr \<Rightarrow> pystr \<Rightarrow> bool" where
  "endswith s suffix = startswith (rev s) (rev suffix)"

text \<open>\<open>s.split(sep)[0]\<close> for a non-empty separator: the text before the first \<open>sep\<close>.\<close>

fun split_first :: "pystr \<Rightarrow> pystr \<Rightarrow> pystr" where
  "split_first [] sep = []"
| "split_first (c # s) sep = (if startswith (c # s) sep then [] else c # split_first s sep)"

text \<open>\<open>sep.join(parts)\<close>.\<close>

fun join :: "pystr \<Rightarrow> pystr list \<Rightarrow> pystr" where
  "join sep [] = []"
| "join sep [p] = p"
| "join sep (p # q # ps) = p @ sep @ join sep (q # ps)"

text \<open>\<open>s.replace(old, new)\<close> where \<open>old\<close> is a single code point.\<close>

definition replace :: "nat \<Rightarrow> pystr \<Rightarrow> pystr \<Rightarrow> pystr" where
  "replace old new s = concat (map (\<lambda>c. if c = old then new else [c]) s)"

section \<open>Regular expressions\<close>

text \<open>
  The three patterns of the parser use literals, the classes \<open>\d\<close>, \<open>\s\<close>, \<open>.\<close>, the
  sets \<open>[AP]\<close> and \<open>[^:]\<close>, greedy counted repetition of a class, greedy optional
  groups, concatenation and capturing groups. \<open>re.IGNORECASE\<close> is the flag \<open>ic\<close>;
  the only letters of the patterns are the ASCII letters A, P and M, which under the
  flag match themselves in either case and nothing else.
\<close>

datatype charset =
    Lit nat
  | Digit
  | Space
  | Dot
  | OneOf "nat list"
  | NoneOf "nat list"

definition lower :: "nat \<Rightarrow> nat" where
  "lower c = (if 65 \<le> c \<and> c \<le> 90 then c + 32 else c)"

definition same_char :: "bool \<Rightarrow> nat \<Rightarrow> nat \<Rightarrow> bool" where
  "same_char ic k c \<longleftrightarrow> (if ic then lower c = lower k else c = k)"

fun charset_match :: "bool \<Rightarrow> charset \<Rightarrow> nat \<Rightarrow> bool" where
  "charset_match ic (Lit k) c = same_char ic k c"
| "charset_match ic Digit c = isdecimal c"
| "charset_match ic Space c = isspace c"
| "charset_match ic Dot c = (c \<noteq> 10)"
| "charset_match ic (OneOf ks) c = list_ex (\<lambda>k. same_char ic k c) ks"
| "charset_match ic (NoneOf ks) c = (\<not> list_ex (\<lambda>k. same_char ic k c) ks)"

datatype regex =
    Eps
  | Chr charset
  | Rep nat "nat option" charset
  | Opt regex
  | Then regex regex
  | Group nat regex

text \<open>
  The matcher returns every way the pattern can match at the start of the text, in the
  order in which a backtracking matcher tries them: a greedy repetition tries the
  longest run first, a greedy optional part tries to match before it tries to skip.
  A state is the rest of the text and the groups captured so far.
\<close>

type_synonym mstate = "pystr \<times> (nat \<times> pystr) list"

fun matches :: "bool \<Rightarrow> regex \<Rightarrow> mstate \<Rightarrow> mstate list" where
  "matches ic Eps st = [st]"
| "matches ic (Chr cs) (s, g) =
     (case s of [] \<Rightarrow> [] | c # s' \<Rightarrow> if charset_match ic cs c then [(s', g)] else [])"
| "matches ic (Rep lo hi cs) (s, g) =
     (let k = length (takeWhile (charset_match ic cs) s);
          top = (case hi of None \<Rightarrow> k | Some h \<Rightarrow> min h k)
      in map (\<lambda>j. (drop j s, g)) (rev [lo..<Suc top]))"
| "matches ic (Opt r) st = matches ic r st @ [st]"
| "matches ic (Then r1 r2) st = concat (map (matches ic r2) (matches ic r1 st))"
| "matches ic (Group i r) (s, g) =
     map (\<lambda>(s', g'). (s', (i, take (length s - length s') s) # g')) (matches ic r (s, g))"

text \<open>\<open>pattern.match(text)\<close>: the first way to match at the start of the text, if any.\<close>

definition re_match :: "bool \<Rightarrow> regex \<Rightarrow> pystr \<Rightarrow> (nat \<times> pystr) list option" where
  "re_match ic r s = (case matches ic r (s, []) of [] \<Rightarrow> None | (rest, g) # _ \<Rightarrow> Some g)"

definition seq :: "regex list \<Rightarrow> regex" where
  "seq rs = foldr Then rs Eps"

text \<open>
  The timestamp part shared by the three patterns:
  \<^verbatim>\<open>\d{1,2}/\d{1,2}/\d{2,4},\s*\d{1,2}:\d{2}(?::\d{2})?\s*(?:[AP]M)?\<close>
\<close>

definition TIMESTAMP :: regex where
  "TIMESTAMP = seq
     [Rep 1 (Some 2) Digit, Chr (Lit 47), Rep 1 (Some 2) Digit, Chr (Lit 47),
      Rep 2 (Some 4) Digit, Chr (Lit 44), Rep 0 None Space,
      Rep 1 (Some 2) Digit, Chr (Lit 58), Rep 2 (Some 2) Digit,
      Opt (seq [Chr (Lit 58), Rep 2 (Some 2) Digit]),
      Rep 0 None Space,
      Opt (seq [Chr (OneOf [65, 80]), Chr (Lit 77)])]"

text \<open>\<^verbatim>\<open>\[(TIMESTAMP)\]\s([^:]+):\s?(.*)\<close>, compiled with \<open>re.IGNORECASE\<close>.\<close>

definition WHATSAPP_CHAT_REGEX :: regex where
  "WHATSAPP_CHAT_REGEX = seq
     [Chr (Lit 91), Group 1 TIMESTAMP, Chr (Lit 93), Chr Space,
      Group 2 (Rep 1 None (NoneOf [58])), Chr (Lit 58), Rep 0 (Some 1) Space,
      Group 3 (Rep 0 None Dot)]"

text \<open>\<^verbatim>\<open>(TIMESTAMP)\s-\s([^:]+):\s?(.*)\<close>, compiled with \<open>re.IGNORECASE\<close>.\<close>

definition WHATSAPP_LEGACY_REGEX :: regex where
  "WHATSAPP_LEGACY_REGEX = seq
     [Group 1 TIMESTAMP, Chr Space, Chr (Lit 45), Chr Space,
      Group 2 (Rep 1 None (NoneOf [58])), Chr (Lit 58), Rep 0 (Some 1) Space,
      Group 3 (Rep 0 None Dot)]"

text \<open>\<^verbatim>\<open>\[(TIMESTAMP)\]\s([^:]+):\s?(.+)\<close>, compiled without flags.\<close>

definition SYSTEM_MESSAGE_REGEX :: regex where
  "SYSTEM_MESSAGE_REGEX = seq
     [Chr (Lit 91), Group 1 TIMESTAMP, Chr (Lit 93), Chr Space,
      Group 2 (Rep 1 None (NoneOf [58])), Chr (Lit 58), Rep 0 (Some 1) Space,
      Group 3 (Rep 1 None Dot)]"

definition MEDIA_OMITTED_MSG :: pystr where
  "MEDIA_OMITTED_MSG = str ''<Media omitted>''"

definition FILE_ATTACHED :: pystr where
  "FILE_ATTACHED = str ''(file attached)''"

text \<open>
  A successful match of one of the three patterns binds the groups 1, 2 and 3 (none of
  them is inside an optional part); \<open>match3\<close> returns them as
  \<open>(group(1), group(2), group(3))\<close>.
\<close>

definition match3 :: "bool \<Rightarrow> regex \<Rightarrow> pystr \<Rightarrow> (pystr \<times> pystr \<times> pystr) option" where
  "match3 ic r s =
     (case re_match ic r s of
        None \<Rightarrow> None
      | Some g \<Rightarrow>
          (case (map_of g 1, map_of g 2, map_of g 3) of
             (Some t, Some n, Some b) \<Rightarrow> Some (t, n, b)
           | _ \<Rightarrow> None))"

section \<open>The parser: \<open>parse_chat_file\<close>\<close>

datatype msg_type = Text | Media | VoiceNote | System

text \<open>
  The columns that a dictionary of \<open>chat_data\<close> and a row of the returned frame
  share; the dictionary adds \<open>timestamp_str\<close>, the row adds \<open>timestamp\<close>.
\<close>

record message_fields =
  sender :: pystr
  message :: pystr
  message_type :: msg_type
  media_filename :: "pystr option"

record raw_message = message_fields +
  timestamp_str :: pystr

record 'ts chat_row = message_fields +
  timestamp :: 'ts

text \<open>The local variables of the loop over the lines.\<close>

record parser_state =
  chat_data :: "raw_message list"
  current_message_lines :: "pystr list"
  matched_count :: nat
  unmatched_count :: nat
  unmatched_samples :: "pystr list"

datatype error = IndexError

definition initial_state :: parser_state where
  "initial_state =
     \<lparr>chat_data = [], current_message_lines = [], matched_count = 0,
      unmatched_count = 0, unmatched_samples = []\<rparr>"

text \<open>
  Lines 80--85: narrow no-break space to space, left-to-right mark removed, line
  separator to space.
\<close>

definition normalize :: "pystr \<Rightarrow> pystr" where
  "normalize line = replace 8232 [32] (replace 8206 [] (replace 8239 [32] line))"

text \<open>
  Lines 99--101 and 133--135: \<open>chat_data[-1]['message'] += ' '.join(current_message_lines)\<close>
  when there are pending lines. Indexing an empty list raises \<open>IndexError\<close>.
\<close>

definition flush_pending :: "parser_state \<Rightarrow> error + parser_state" where
  "flush_pending st =
     (if current_message_lines st \<noteq> [] then
        (case chat_data st of
           [] \<Rightarrow> Inl IndexError
         | _ # _ \<Rightarrow>
             Inr (st\<lparr>chat_data :=
                        butlast (chat_data st) @
                        [(last (chat_data st))\<lparr>message :=
                            message (last (chat_data st)) @
                            join [32] (current_message_lines st)\<rparr>],
                      current_message_lines := []\<rparr>))
      else Inr st)"

text \<open>Lines 108--130: the dictionary built from a header match.\<close>

definition header_record :: "pystr \<Rightarrow> pystr \<Rightarrow> pystr \<Rightarrow> raw_message" where
  "header_record ts name body =
     (let message_text = strip body in
      if contains message_text MEDIA_OMITTED_MSG then
        \<lparr>sender = name, message = [], message_type = Media,
         media_filename = None, timestamp_str = ts\<rparr>
      else if contains message_text FILE_ATTACHED then
        (let fname = strip (split_first message_text FILE_ATTACHED) in
         \<lparr>sender = name, message = [],
          message_type = (if contains fname (str ''.opus'') then VoiceNote else Media),
          media_filename = Some fname, timestamp_str = ts\<rparr>)
      else
        \<lparr>sender = name, message = message_text, message_type = Text,
         media_filename = None, timestamp_str = ts\<rparr>)"

text \<open>Lines 137--147: the dictionary built from a system match.\<close>

definition system_record :: "pystr \<Rightarrow> pystr \<Rightarrow> pystr \<Rightarrow> raw_message" where
  "system_record ts name body =
     \<lparr>sender = str ''System'', message = strip body, message_type = System,
      media_filename = None, timestamp_str = ts\<rparr>"

text \<open>Lines 87--91: the bracket pattern first, then the legacy pattern.\<close>

definition header_match :: "pystr \<Rightarrow> (pystr \<times> pystr \<times> pystr) option" where
  "header_match normalized_line =
     (case match3 True WHATSAPP_CHAT_REGEX normalized_line of
        Some m \<Rightarrow> Some m
      | None \<Rightarrow> match3 True WHATSAPP_LEGACY_REGEX normalized_line)"

text \<open>Line 94: the system pattern is tried only when there is no header match.\<close>

definition system_match :: "pystr \<Rightarrow> (pystr \<times> pystr \<times> pystr) option" where
  "system_match normalized_line =
     (if header_match normalized_line = None
      then match3 False SYSTEM_MESSAGE_REGEX normalized_line else None)"

text \<open>
  Lines 96--156: the branches of the body of the loop, for the results \<open>m\<close> and
  \<open>sm\<close> of the tests of lines 87--91 and of line 94.
\<close>

definition apply_match ::
  "parser_state \<Rightarrow> (pystr \<times> pystr \<times> pystr) option \<Rightarrow> (pystr \<times> pystr \<times> pystr) option \<Rightarrow>
   pystr \<Rightarrow> error + parser_state" where
  "apply_match st m sm normalized_line =
     (case m of
        Some (ts, name, body) \<Rightarrow>
          (case flush_pending (st\<lparr>matched_count := matched_count st + 1\<rparr>) of
             Inl e \<Rightarrow> Inl e
           | Inr st' \<Rightarrow>
               Inr (st'\<lparr>chat_data := chat_data st' @ [header_record ts name body]\<rparr>))
      | None \<Rightarrow>
          (case sm of
             Some (ts, name, body) \<Rightarrow>
               (case flush_pending (st\<lparr>matched_count := matched_count st + 1\<rparr>) of
                  Inl e \<Rightarrow> Inl e
                | Inr st' \<Rightarrow>
                    Inr (st'\<lparr>chat_data := chat_data st' @ [system_record ts name body]\<rparr>))
           | None \<Rightarrow>
               if chat_data st \<noteq> [] then
                 Inr (st\<lparr>current_message_lines :=
                          current_message_lines st @ [strip normalized_line]\<rparr>)
               else
                 Inr (st\<lparr>unmatched_count := unmatched_count st + 1,
                         unmatched_samples :=
                           (if length (unmatched_samples st) < 3
                            then unmatched_samples st @ [strip normalized_line]
                            else unmatched_samples st)\<rparr>)))"

text \<open>Lines 79--156: the body of the loop, for one line.\<close>

definition process_line :: "parser_state \<Rightarrow> pystr \<Rightarrow> error + parser_state" where
  "process_line st line =
     (let normalized_line = normalize line in
      apply_match st (header_match normalized_line) (system_match normalized_line)
        normalized_line)"

text \<open>Line 78: the loop over the lines; an exception ends it.\<close>

fun scan :: "parser_state \<Rightarrow> pystr list \<Rightarrow> error + parser_state" where
  "scan st [] = Inr st"
| "scan st (line # rest) =
     (case process_line st line of Inl e \<Rightarrow> Inl e | Inr st' \<Rightarrow> scan st' rest)"

text \<open>Lines 158--160: the pending lines of the last message.\<close>

definition final_flush :: "parser_state \<Rightarrow> parser_state" where
  "final_flush st =
     (if current_message_lines st \<noteq> [] \<and> chat_data st \<noteq> [] then
        st\<lparr>chat_data :=
             butlast (chat_data st) @
             [(last (chat_data st))\<lparr>message :=
                 message (last (chat_data st)) @ join [32] (current_message_lines st)\<rparr>]\<rparr>
      else st)"

text \<open>The state at line 162, after the loop and the last flush.\<close>

definition scan_lines :: "pystr list \<Rightarrow> error + parser_state" where
  "scan_lines lines =
     (case scan initial_state lines of Inl e \<Rightarrow> Inl e | Inr st \<Rightarrow> Inr (final_flush st))"

text \<open>\<open>chat_data\<close> at line 194.\<close>

definition raw_records :: "pystr list \<Rightarrow> error + raw_message list" where
  "raw_records lines =
     (case scan_lines lines of Inl e \<Rightarrow> Inl e | Inr st \<Rightarrow> Inr (chat_data st))"

text \<open>Lines 163 and 164: the two numbers the parser logs, matched and unmatched.\<close>

definition line_counts :: "pystr list \<Rightarrow> error + nat \<times> nat" where
  "line_counts lines =
     (case scan_lines lines of
        Inl e \<Rightarrow> Inl e
      | Inr st \<Rightarrow> Inr (matched_count st, unmatched_count st))"

section \<open>The calls into pandas\<close>

text \<open>
  Lines 201--224 work on a \<open>DataFrame\<close>. pandas is a library, not code of this
  repository, so the functions whose result is not fixed by the call itself are
  parameters of the model:

  \<^item> \<open>to_datetime\<close> is \<open>pd.to_datetime(column, errors='coerce')\<close> of line 207. It
    sees the whole column and gives each text an instant or \<open>NaT\<close> (\<open>None\<close>); the
    result \<open>None\<close> for the column is an exception, which line 208 catches.
  \<^item> \<open>to_datetime_mixed\<close> is the call of line 210, with \<open>format='mixed'\<close>; it
    is outside any handler, and with \<open>errors='coerce'\<close> it is taken to return a column.
  \<^item> \<open>sort_values\<close> is \<open>df.sort_values(by="timestamp")\<close> of line 220. The call
    passes no \<open>kind\<close>, and pandas promises a stable order only for the kinds
    \<open>mergesort\<close> and \<open>stable\<close>; what the model may assume of it is
    \<open>sorts_by_timestamp\<close>: the rows are permuted into non-decreasing order of
    the timestamp.

  A row of the frame between lines 207 and 221 is a dictionary of \<open>chat_data\<close>
  paired with its timestamp.
\<close>

definition timestamps ::
  "(pystr list \<Rightarrow> (pystr \<Rightarrow> 'ts option) option) \<Rightarrow> (pystr list \<Rightarrow> pystr \<Rightarrow> 'ts option) \<Rightarrow>
   pystr list \<Rightarrow> 'ts option list" where
  "timestamps to_datetime to_datetime_mixed col =
     (case to_datetime col of
        Some conv \<Rightarrow> map conv col
      | None \<Rightarrow> map (to_datetime_mixed col) col)"

text \<open>Line 217: \<open>df.dropna(subset=['timestamp'])\<close>.\<close>

fun dropna :: "(raw_message \<times> 'ts option) list \<Rightarrow> (raw_message \<times> 'ts) list" where
  "dropna [] = []"
| "dropna ((r, None) # df) = dropna df"
| "dropna ((r, Some t) # df) = (r, t) # dropna df"

definition sorts_by_timestamp ::
  "((raw_message \<times> 'ts::linorder) list \<Rightarrow> (raw_message \<times> 'ts) list) \<Rightarrow> bool" where
  "sorts_by_timestamp sort_values \<longleftrightarrow>
     (\<forall>df. mset (sort_values df) = mset df \<and> sorted (map snd (sort_values df)))"

text \<open>Lines 221 and 224: the column \<open>timestamp_str\<close> is dropped.\<close>

definition chat_row_of :: "raw_message \<times> 'ts \<Rightarrow> 'ts chat_row" where
  "chat_row_of rt =
     \<lparr>sender = sender (fst rt), message = message (fst rt),
      message_type = message_type (fst rt), media_filename = media_filename (fst rt),
      timestamp = snd rt\<rparr>"

text \<open>The frame of line 207: every dictionary with its timestamp or \<open>NaT\<close>.\<close>

definition stamped ::
  "(pystr list \<Rightarrow> (pystr \<Rightarrow> 'ts option) option) \<Rightarrow> (pystr list \<Rightarrow> pystr \<Rightarrow> 'ts option) \<Rightarrow>
   raw_message list \<Rightarrow> (raw_message \<times> 'ts option) list" where
  "stamped to_datetime to_datetime_mixed records =
     zip records (timestamps to_datetime to_datetime_mixed (map timestamp_str records))"

text \<open>Line 213: \<open>df['timestamp'].isna().sum()\<close>, the number the parser logs as dropped.\<close>

definition null_timestamps ::
  "(pystr list \<Rightarrow> (pystr \<Rightarrow> 'ts option) option) \<Rightarrow> (pystr list \<Rightarrow> pystr \<Rightarrow> 'ts option) \<Rightarrow>
   raw_message list \<Rightarrow> nat" where
  "null_timestamps to_datetime to_datetime_mixed records =
     length (filter (\<lambda>rt. snd rt = None) (stamped to_datetime to_datetime_mixed records))"

text \<open>
  \<open>parse_chat_file\<close>. The argument \<open>file\<close> is the result of lines 45--47: \<open>None\<close> when
  opening or reading raised, else the list that \<open>readlines()\<close> returned. A frame is
  the list of its rows; \<open>pd.DataFrame()\<close> is the empty list.
\<close>

definition parse_chat_file ::
  "(pystr list \<Rightarrow> (pystr \<Rightarrow> 'ts option) option) \<Rightarrow> (pystr list \<Rightarrow> pystr \<Rightarrow> 'ts option) \<Rightarrow>
   ((raw_message \<times> 'ts) list \<Rightarrow> (raw_message \<times> 'ts) list) \<Rightarrow>
   pystr list option \<Rightarrow> error + 'ts chat_row list" where
  "parse_chat_file to_datetime to_datetime_mixed sort_values file =
     (case file of
        None \<Rightarrow> Inr []
      | Some lines \<Rightarrow>
          (case raw_records lines of
             Inl e \<Rightarrow> Inl e
           | Inr records \<Rightarrow>
               if records = [] then Inr []
               else
                 Inr (map chat_row_of
                        (sort_values
                           (dropna (stamped to_datetime to_datetime_mixed records))))))"

section \<open>The transcription step: \<open>transcribe_audio_files\<close>\<close>

text \<open>
  \<^verbatim>\<open>backend/media/audio_transcription.py\<close>, lines 55--58: of the media files, given
  as pairs of a path and a file name, the ones that are transcribed are those whose name
  ends with one of four extensions.
\<close>

definition audio_files :: "(pystr \<times> pystr) list \<Rightarrow> (pystr \<times> pystr) list" where
  "audio_files media_files =
     filter (\<lambda>(path, name).
               endswith name (str ''.opus'') \<or> endswith name (str ''.ogg'') \<or>
               endswith name (str ''.mp3'') \<or> endswith name (str ''.m4a''))
       media_files"

section \<open>Notions used in the proofs\<close>

text \<open>The groups that every match of a pattern binds.\<close>

fun groups_of :: "regex \<Rightarrow> nat list" where
  "groups_of Eps = []"
| "groups_of (Chr cs) = []"
| "groups_of (Rep lo hi cs) = []"
| "groups_of (Opt r) = []"
| "groups_of (Then r1 r2) = groups_of r1 @ groups_of r2"
| "groups_of (Group i r) = i # groups_of r"

text \<open>
  \<open>covers r r'\<close>: \<open>r'\<close> has the shape of \<open>r\<close>, each of its classes matched with
  \<open>re.IGNORECASE\<close> accepts what the class of \<open>r\<close> accepts without the flag, and its
  repetitions allow at least the counts of \<open>r\<close>.
\<close>

inductive covers :: "regex \<Rightarrow> regex \<Rightarrow> bool" where
  covers_Eps: "covers Eps Eps"
| covers_Chr: "(\<And>c. charset_match False cs c \<Longrightarrow> charset_match True cs' c) \<Longrightarrow> covers (Chr cs) (Chr cs')"
| covers_Rep: "(\<And>c. charset_match False cs c \<Longrightarrow> charset_match True cs' c) \<Longrightarrow> lo' \<le> lo \<Longrightarrow>
     covers (Rep lo hi cs) (Rep lo' hi cs')"
| covers_Opt: "covers r r' \<Longrightarrow> covers (Opt r) (Opt r')"
| covers_Then: "covers r1 r1' \<Longrightarrow> covers r2 r2' \<Longrightarrow> covers (Then r1 r2) (Then r1' r2')"
| covers_Group: "covers r r' \<Longrightarrow> covers (Group i r) (Group j r')"

text \<open>A line that starts a record: the test of line 96 or the test of line 131 holds.\<close>

definition starts_record :: "pystr \<Rightarrow> bool" where
  "starts_record line \<longleftrightarrow>
     header_match (normalize line) \<noteq> None \<or> system_match (normalize line) \<noteq> None"

text \<open>
  The conversion that lines 206--210 apply to the column of timestamp texts: the result
  of the first call, or of the second when the first raised.
\<close>

definition converter ::
  "(pystr list \<Rightarrow> (pystr \<Rightarrow> 'ts option) option) \<Rightarrow> (pystr list \<Rightarrow> pystr \<Rightarrow> 'ts option) \<Rightarrow>
   raw_message list \<Rightarrow> pystr \<Rightarrow> 'ts option" where
  "converter to_datetime to_datetime_mixed records =
     (case to_datetime (map timestamp_str records) of
        Some conv \<Rightarrow> conv
      | None \<Rightarrow> to_datetime_mixed (map timestamp_str records))"

text \<open>
  The text after the last full stop of a file name: the extension, as C5 speaks of it.
\<close>

definition spec_extension :: "pystr \<Rightarrow> pystr" where
  "spec_extension fname = rev (takeWhile (\<lambda>c. c \<noteq> 46) (rev fname))"

text \<open>
  Stand-ins for the pandas functions, for the concrete runs below: a conversion that
  knows the timestamp texts of a table (an instant is a number) and gives \<open>NaT\<close> for any
  other text, and a stable sort.
\<close>

definition table_to_datetime :: "(pystr \<times> nat) list \<Rightarrow> pystr list \<Rightarrow> (pystr \<Rightarrow> nat option) option" where
  "table_to_datetime table col = Some (map_of table)"

definition table_to_datetime_mixed :: "(pystr \<times> nat) list \<Rightarrow> pystr list \<Rightarrow> pystr \<Rightarrow> nat option" where
  "table_to_datetime_mixed table col = map_of table"

definition example_clock :: "(pystr \<times> nat) list" where
  "example_clock =
     [(str ''01/02/2023, 09:15:00 AM'', 1), (str ''01/02/2023, 09:15:30 AM'', 2),
      (str ''01/02/2023, 09:15'', 3)]"

definition stable_sort :: "(raw_message \<times> nat) list \<Rightarrow> (raw_message \<times> nat) list" where
  "stable_sort df = sort_key snd df"

text \<open>
  The loop of lines 78--156 with the two pattern tests as parameters: \<open>hm\<close> stands for
  the test of lines 87--91 and \<open>sm\<close> for the match of the system pattern, which line 94
  tries when \<open>hm\<close> finds nothing. The branches are those of the parser, \<open>apply_match\<close>.
\<close>

fun scan_with ::
  "(pystr \<Rightarrow> (pystr \<times> pystr \<times> pystr) option) \<Rightarrow> (pystr \<Rightarrow> (pystr \<times> pystr \<times> pystr) option) \<Rightarrow>
   parser_state \<Rightarrow> pystr list \<Rightarrow> error + parser_state" where
  "scan_with hm sm st [] = Inr st"
| "scan_with hm sm st (line # rest) =
     (case apply_match st (hm (normalize line))
             (if hm (normalize line) = None then sm (normalize line) else None)
             (normalize line) of
        Inl e \<Rightarrow> Inl e
      | Inr st' \<Rightarrow> scan_with hm sm st' rest)"

text \<open>
  \<open>message_differs k records records'\<close>: the two lists are the same but for the message
  of the record at index \<open>k\<close>.
\<close>

definition message_differs :: "nat \<Rightarrow> raw_message list \<Rightarrow> raw_message list \<Rightarrow> bool" where
  "message_differs k records records' \<longleftrightarrow>
     k < length records \<and>
     records' = records[k := (records ! k)\<lparr>message := message (records' ! k)\<rparr>]"

section \<open>The patterns\<close>

lemma matches_groups:
  "(s', g') \<in> set (matches ic r (s, g)) \<Longrightarrow> set (groups_of r) \<union> fst ` set g \<subseteq> fst ` set g'"
proof (induction r arbitrary: s g s' g')
  case (Then r1 r2)
  from Then.prems obtain s1 g1 where a: "(s1, g1) \<in> set (matches ic r1 (s, g))"
    and b: "(s', g') \<in> set (matches ic r2 (s1, g1))" by auto
  from Then.IH(1)[OF a] Then.IH(2)[OF b] show ?case by (simp add: subset_iff)
next
  case (Group i r)
  from Group.prems obtain g1 where a: "(s', g1) \<in> set (matches ic r (s, g))"
    and b: "g' = (i, take (length s - length s') s) # g1" by auto
  from Group.IH[OF a] b show ?case by auto
next
  case (Opt r)
  from Opt.prems have "(s', g') \<in> set (matches ic r (s, g)) \<or> g' = g" by auto
  then show ?case
  proof
    assume "(s', g') \<in> set (matches ic r (s, g))"
    from Opt.IH[OF this] show ?thesis by simp
  qed simp
qed (auto split: list.splits if_splits simp: Let_def)

lemma takeWhile_length_mono:
  assumes "\<And>c. P c \<Longrightarrow> Q c"
  shows "length (takeWhile P s) \<le> length (takeWhile Q s)"
  using assms by (induction s) auto

lemma matches_Rep_iff:
  "(s', g') \<in> set (matches ic (Rep lo hi cs) (s, g)) \<longleftrightarrow>
     g' = g \<and> (\<exists>j. s' = drop j s \<and> lo \<le> j \<and>
        j \<le> (case hi of None \<Rightarrow> length (takeWhile (charset_match ic cs) s)
              | Some h \<Rightarrow> min h (length (takeWhile (charset_match ic cs) s))))"
  by (auto simp: Let_def image_iff less_Suc_eq_le simp del: upt_Suc)

lemma matches_covers:
  "covers r r' \<Longrightarrow> (s', g1) \<in> set (matches False r (s, g)) \<Longrightarrow>
     \<exists>g1'. (s', g1') \<in> set (matches True r' (s, g'))"
proof (induction arbitrary: s g g' s' g1 rule: covers.induct)
  case covers_Eps
  then show ?case by auto
next
  case (covers_Chr cs cs')
  then show ?case by (auto split: list.splits if_splits)
next
  case (covers_Rep cs cs' lo' lo hi)
  have le: "length (takeWhile (charset_match False cs) s) \<le> length (takeWhile (charset_match True cs') s)"
    by (rule takeWhile_length_mono) (rule covers_Rep.hyps)
  from covers_Rep.prems obtain j where j: "s' = drop j s" "lo \<le> j"
    "j \<le> (case hi of None \<Rightarrow> length (takeWhile (charset_match False cs) s)
           | Some h \<Rightarrow> min h (length (takeWhile (charset_match False cs) s)))"
    unfolding matches_Rep_iff by blast
  have "j \<le> (case hi of None \<Rightarrow> length (takeWhile (charset_match True cs') s)
           | Some h \<Rightarrow> min h (length (takeWhile (charset_match True cs') s)))"
    using j(3) le by (auto split: option.splits)
  moreover have "lo' \<le> j" using j(2) covers_Rep.hyps(2) by simp
  ultimately have "(drop j s, g') \<in> set (matches True (Rep lo' hi cs') (s, g'))"
    unfolding matches_Rep_iff by blast
  then show ?case using j(1) by blast
next
  case (covers_Opt r r')
  then show ?case by fastforce
next
  case (covers_Then r1 r1' r2 r2')
  from covers_Then.prems obtain s1 g2 where a: "(s1, g2) \<in> set (matches False r1 (s, g))"
    and b: "(s', g1) \<in> set (matches False r2 (s1, g2))" by auto
  from covers_Then.IH(1)[OF a] obtain g2' where a': "(s1, g2') \<in> set (matches True r1' (s, g'))" by blast
  from covers_Then.IH(2)[OF b] obtain g1' where b': "(s', g1') \<in> set (matches True r2' (s1, g2'))" by blast
  from a' b' show ?case by auto
next
  case (covers_Group r r' i j)
  from covers_Group.prems obtain g2 where a: "(s', g2) \<in> set (matches False r (s, g))" by auto
  from covers_Group.IH[OF a] obtain g2' where "(s', g2') \<in> set (matches True r' (s, g'))" by blast
  then show ?case by force
qed

lemma same_char_weaken: "same_char False k c \<Longrightarrow> same_char True k c"
  by (simp add: same_char_def)

lemma covers_refl_Lit: "covers (Chr (Lit k)) (Chr (Lit k))"
  by (rule covers_Chr) (simp add: same_char_def)

lemma covers_TIMESTAMP: "covers TIMESTAMP TIMESTAMP"
  unfolding TIMESTAMP_def seq_def
  by (auto intro!: covers.intros simp: same_char_def list_ex_iff)

lemma not_colon_weaken: "charset_match False (NoneOf [58]) c \<Longrightarrow> charset_match True (NoneOf [58]) c"
  by (auto simp: same_char_def lower_def split: if_splits)

lemma covers_SYSTEM_CHAT: "covers SYSTEM_MESSAGE_REGEX WHATSAPP_CHAT_REGEX"
  unfolding SYSTEM_MESSAGE_REGEX_def WHATSAPP_CHAT_REGEX_def seq_def
  by (auto intro!: covers.intros covers_TIMESTAMP not_colon_weaken simp: same_char_def)

lemma re_match_None_iff: "re_match ic r s = None \<longleftrightarrow> matches ic r (s, []) = []"
  by (auto simp: re_match_def split: list.splits)

lemma system_implies_chat:
  "re_match False SYSTEM_MESSAGE_REGEX s \<noteq> None \<Longrightarrow> re_match True WHATSAPP_CHAT_REGEX s \<noteq> None"
proof -
  assume "re_match False SYSTEM_MESSAGE_REGEX s \<noteq> None"
  then obtain s' g1 where "(s', g1) \<in> set (matches False SYSTEM_MESSAGE_REGEX (s, []))"
    by (cases "matches False SYSTEM_MESSAGE_REGEX (s, [])") (auto simp: re_match_None_iff)
  from matches_covers[OF covers_SYSTEM_CHAT this, of "[]"]
  obtain g1' where "(s', g1') \<in> set (matches True WHATSAPP_CHAT_REGEX (s, []))" by blast
  then show ?thesis by (auto simp: re_match_None_iff)
qed

lemma match3_CHAT_iff:
  "match3 ic WHATSAPP_CHAT_REGEX s = None \<longleftrightarrow> re_match ic WHATSAPP_CHAT_REGEX s = None"
proof
  assume "re_match ic WHATSAPP_CHAT_REGEX s = None"
  then show "match3 ic WHATSAPP_CHAT_REGEX s = None" by (simp add: match3_def)
next
  assume a: "match3 ic WHATSAPP_CHAT_REGEX s = None"
  show "re_match ic WHATSAPP_CHAT_REGEX s = None"
  proof (rule ccontr)
    assume "re_match ic WHATSAPP_CHAT_REGEX s \<noteq> None"
    then obtain g where g: "re_match ic WHATSAPP_CHAT_REGEX s = Some g" by auto
    then obtain rest where "(rest, g) \<in> set (matches ic WHATSAPP_CHAT_REGEX (s, []))"
      by (auto simp: re_match_def split: list.splits)
    from matches_groups[OF this]
    have "{1, 2, 3} \<subseteq> fst ` set g"
      by (simp add: WHATSAPP_CHAT_REGEX_def seq_def)
    then have "map_of g 1 \<noteq> None" "map_of g 2 \<noteq> None" "map_of g 3 \<noteq> None"
      by (auto simp: map_of_eq_None_iff)
    with g a show False by (auto simp: match3_def)
  qed
qed

lemma system_match_None: "system_match s = None"
proof (cases "header_match s = None")
  case True
  then have "match3 True WHATSAPP_CHAT_REGEX s = None"
    by (auto simp: header_match_def split: option.splits)
  then have "re_match True WHATSAPP_CHAT_REGEX s = None" by (simp add: match3_CHAT_iff)
  then have "re_match False SYSTEM_MESSAGE_REGEX s = None" using system_implies_chat by blast
  then show ?thesis by (simp add: system_match_def match3_def)
next
  case False
  then show ?thesis by (auto simp: system_match_def)
qed

section \<open>The loop over the lines\<close>

lemma process_line_header:
  assumes "header_match (normalize line) = Some (ts, name, body)"
  shows "process_line st line =
     (case flush_pending (st\<lparr>matched_count := matched_count st + 1\<rparr>) of
        Inl e \<Rightarrow> Inl e
      | Inr st' \<Rightarrow> Inr (st'\<lparr>chat_data := chat_data st' @ [header_record ts name body]\<rparr>))"
  using assms by (simp add: process_line_def apply_match_def)

lemma process_line_other:
  assumes "header_match (normalize line) = None"
  shows "process_line st line =
     (if chat_data st \<noteq> [] then
        Inr (st\<lparr>current_message_lines := current_message_lines st @ [strip (normalize line)]\<rparr>)
      else
        Inr (st\<lparr>unmatched_count := unmatched_count st + 1,
                unmatched_samples :=
                  (if length (unmatched_samples st) < 3
                   then unmatched_samples st @ [strip (normalize line)]
                   else unmatched_samples st)\<rparr>))"
  using assms by (simp add: process_line_def apply_match_def system_match_None)

lemma flush_pending_cases:
  "current_message_lines st \<noteq> [] \<longrightarrow> chat_data st \<noteq> [] \<Longrightarrow>
   flush_pending st = Inr (if current_message_lines st \<noteq> [] then
       st\<lparr>chat_data := butlast (chat_data st) @
                 [(last (chat_data st))\<lparr>message :=
                     message (last (chat_data st)) @ join [32] (current_message_lines st)\<rparr>],
          current_message_lines := []\<rparr> else st)"
  by (auto simp: flush_pending_def split: list.splits)

lemma process_line_total:
  assumes "current_message_lines st \<noteq> [] \<longrightarrow> chat_data st \<noteq> []"
  shows "\<exists>st'. process_line st line = Inr st' \<and>
           (current_message_lines st' \<noteq> [] \<longrightarrow> chat_data st' \<noteq> [])"
proof (cases "header_match (normalize line)")
  case None
  then show ?thesis using assms by (auto simp: process_line_other)
next
  case (Some m)
  obtain ts name body where m: "m = (ts, name, body)" by (cases m) auto
  have "current_message_lines (st\<lparr>matched_count := matched_count st + 1\<rparr>) \<noteq> [] \<longrightarrow>
        chat_data (st\<lparr>matched_count := matched_count st + 1\<rparr>) \<noteq> []"
    using assms by simp
  from flush_pending_cases[OF this] Some m show ?thesis
    by (simp add: process_line_header)
qed

lemma scan_total:
  assumes "current_message_lines st \<noteq> [] \<longrightarrow> chat_data st \<noteq> []"
  shows "\<exists>st'. scan st lines = Inr st' \<and>
           (current_message_lines st' \<noteq> [] \<longrightarrow> chat_data st' \<noteq> [])"
  using assms
proof (induction lines arbitrary: st)
  case Nil
  then show ?case by simp
next
  case (Cons line rest)
  from process_line_total[OF Cons.prems, of line] obtain st1 where
    a: "process_line st line = Inr st1" and b: "current_message_lines st1 \<noteq> [] \<longrightarrow> chat_data st1 \<noteq> []"
    by blast
  from Cons.IH[OF b] a show ?case by simp
qed

lemma scan_initial_total: "\<exists>st. scan initial_state lines = Inr st \<and>
    (current_message_lines st \<noteq> [] \<longrightarrow> chat_data st \<noteq> [])"
  by (rule scan_total) (simp add: initial_state_def)

lemma scan_lines_total: "\<exists>st. scan_lines lines = Inr st"
  using scan_initial_total[of lines] by (auto simp: scan_lines_def)

lemma raw_records_total: "\<exists>records. raw_records lines = Inr records"
  using scan_lines_total[of lines] by (auto simp: raw_records_def)

lemma scan_append:
  "scan st (xs @ ys) = (case scan st xs of Inl e \<Rightarrow> Inl e | Inr st' \<Rightarrow> scan st' ys)"
  by (induction xs arbitrary: st) (auto split: sum.splits)

lemma starts_record_iff: "starts_record line \<longleftrightarrow> header_match (normalize line) \<noteq> None"
  by (simp add: starts_record_def system_match_None)

lemma map_butlast_last: "cd \<noteq> [] \<Longrightarrow> map f (butlast cd) @ [f (last cd)] = map f cd"
  by (induction cd) auto

lemma final_flush_chat_data:
  "chat_data (final_flush st) =
     (if current_message_lines st \<noteq> [] \<and> chat_data st \<noteq> [] then
        butlast (chat_data st) @
        [(last (chat_data st))\<lparr>message :=
            message (last (chat_data st)) @ join [32] (current_message_lines st)\<rparr>]
      else chat_data st)"
  by (simp add: final_flush_def)

lemma final_flush_frame:
  "length (chat_data (final_flush st)) = length (chat_data st)"
  "butlast (chat_data (final_flush st)) = butlast (chat_data st)"
  "map timestamp_str (chat_data (final_flush st)) = map timestamp_str (chat_data st)"
  "map sender (chat_data (final_flush st)) = map sender (chat_data st)"
  "map message_type (chat_data (final_flush st)) = map message_type (chat_data st)"
  "map media_filename (chat_data (final_flush st)) = map media_filename (chat_data st)"
  by (auto simp: final_flush_chat_data map_butlast_last)

lemma raw_records_snoc_other:
  assumes "header_match (normalize line) = None"
  shows "\<exists>st. scan initial_state lines = Inr st \<and>
           raw_records lines = Inr (chat_data (final_flush st)) \<and>
           raw_records (lines @ [line]) =
             Inr (chat_data (final_flush
               (if chat_data st \<noteq> [] then
                  st\<lparr>current_message_lines := current_message_lines st @ [strip (normalize line)]\<rparr>
                else st)))"
proof -
  obtain st where st: "scan initial_state lines = Inr st" using scan_initial_total by blast
  have "scan initial_state (lines @ [line]) = process_line st line"
    by (simp add: scan_append st split: sum.splits)
  then show ?thesis using st assms
    by (auto simp: raw_records_def scan_lines_def process_line_other final_flush_def)
qed


lemma flush_pending_counts:
  assumes "flush_pending st = Inr st'"
  shows "matched_count st' = matched_count st" "unmatched_count st' = unmatched_count st"
    "length (chat_data st') = length (chat_data st)" "current_message_lines st' = []"
  using assms by (auto simp: flush_pending_def split: if_splits list.splits)

lemma process_line_counts:
  assumes "process_line st line = Inr st'"
  shows "matched_count st' = matched_count st + (if starts_record line then 1 else 0)"
    and "unmatched_count st' =
           unmatched_count st + (if \<not> starts_record line \<and> chat_data st = [] then 1 else 0)"
    and "length (chat_data st') = length (chat_data st) + (if starts_record line then 1 else 0)"
proof -
  have "matched_count st' = matched_count st + (if starts_record line then 1 else 0) \<and>
        unmatched_count st' =
           unmatched_count st + (if \<not> starts_record line \<and> chat_data st = [] then 1 else 0) \<and>
        length (chat_data st') = length (chat_data st) + (if starts_record line then 1 else 0)"
  proof (cases "header_match (normalize line)")
    case None
    then show ?thesis using assms
      by (auto simp: process_line_other starts_record_iff split: if_splits)
  next
    case (Some m)
    obtain ts name body where m: "m = (ts, name, body)" by (cases m) auto
    from assms Some m obtain st1 where
      f: "flush_pending (st\<lparr>matched_count := matched_count st + 1\<rparr>) = Inr st1" and
      g: "st' = st1\<lparr>chat_data := chat_data st1 @ [header_record ts name body]\<rparr>"
      by (auto simp: process_line_header split: sum.splits)
    from flush_pending_counts[OF f] g Some show ?thesis
      by (simp add: starts_record_iff)
  qed
  then show "matched_count st' = matched_count st + (if starts_record line then 1 else 0)"
    and "unmatched_count st' =
           unmatched_count st + (if \<not> starts_record line \<and> chat_data st = [] then 1 else 0)"
    and "length (chat_data st') = length (chat_data st) + (if starts_record line then 1 else 0)"
    by simp_all
qed

lemma scan_counts:
  assumes "scan st lines = Inr st'"
  shows "matched_count st' = matched_count st + length (filter starts_record lines) \<and>
         unmatched_count st' =
           unmatched_count st +
           (if chat_data st = [] then length (takeWhile (\<lambda>l. \<not> starts_record l) lines) else 0) \<and>
         length (chat_data st') = length (chat_data st) + length (filter starts_record lines)"
  using assms
proof (induction lines arbitrary: st)
  case Nil
  then show ?case by simp
next
  case (Cons line rest)
  from Cons.prems obtain st1 where a: "process_line st line = Inr st1" and b: "scan st1 rest = Inr st'"
    by (auto split: sum.splits)
  note c = process_line_counts[OF a]
  note d = Cons.IH[OF b]
  have e: "chat_data st1 = [] \<longleftrightarrow> chat_data st = [] \<and> \<not> starts_record line"
    using c(3) by (auto split: if_splits)
  show ?case using c d e by (auto split: if_splits)
qed

lemma final_flush_counts:
  "matched_count (final_flush st) = matched_count st"
  "unmatched_count (final_flush st) = unmatched_count st"
  by (simp_all add: final_flush_def)

lemma raw_records_length:
  "raw_records lines = Inr records \<Longrightarrow> length records = length (filter starts_record lines)"
proof -
  assume r: "raw_records lines = Inr records"
  obtain st where st: "scan initial_state lines = Inr st" using scan_initial_total by blast
  have i: "chat_data initial_state = []" by (simp add: initial_state_def)
  from scan_counts[OF st] r show ?thesis
    by (auto simp: raw_records_def scan_lines_def st final_flush_frame i)
qed

lemma line_counts_eq:
  "line_counts lines =
     Inr (length (filter starts_record lines),
          length (takeWhile (\<lambda>l. \<not> starts_record l) lines))"
proof -
  obtain st where st: "scan initial_state lines = Inr st" using scan_initial_total by blast
  have i: "matched_count initial_state = 0" "unmatched_count initial_state = 0"
    "chat_data initial_state = []" by (simp_all add: initial_state_def)
  from scan_counts[OF st] show ?thesis
    by (simp add: line_counts_def scan_lines_def st final_flush_counts i)
qed

lemma raw_records_Nil: "raw_records [] = Inr []"
  by (simp add: raw_records_def scan_lines_def final_flush_def initial_state_def)

lemma raw_records_snoc_header:
  assumes "header_match (normalize line) = Some (ts, name, body)"
  shows "\<exists>records. raw_records lines = Inr records \<and>
           raw_records (lines @ [line]) = Inr (records @ [header_record ts name body])"
proof -
  obtain st where st: "scan initial_state lines = Inr st"
    and inv: "current_message_lines st \<noteq> [] \<longrightarrow> chat_data st \<noteq> []"
    using scan_initial_total by blast
  let ?st1 = "st\<lparr>matched_count := matched_count st + 1\<rparr>"
  have "current_message_lines ?st1 \<noteq> [] \<longrightarrow> chat_data ?st1 \<noteq> []" using inv by simp
  note f = flush_pending_cases[OF this]
  have p: "scan initial_state (lines @ [line]) = process_line st line"
    by (simp add: scan_append st split: sum.splits)
  show ?thesis
  proof (cases "current_message_lines st = []")
    case True
    then show ?thesis using st p f assms
      by (simp add: raw_records_def scan_lines_def process_line_header final_flush_def)
  next
    case False
    with inv have "chat_data st \<noteq> []" by simp
    then show ?thesis using False st p f assms
      by (simp add: raw_records_def scan_lines_def process_line_header final_flush_def)
  qed
qed

lemma header_record_not_system: "message_type (header_record ts name body) \<noteq> System"
  by (simp add: header_record_def Let_def)

lemma raw_records_no_system:
  "raw_records lines = Inr records \<Longrightarrow> System \<notin> set (map message_type records)"
proof (induction lines arbitrary: records rule: rev_induct)
  case Nil
  then show ?case by (simp add: raw_records_Nil)
next
  case (snoc line lines)
  show ?case
  proof (cases "header_match (normalize line)")
    case None
    from raw_records_snoc_other[OF None, of lines] obtain st where
      a: "raw_records lines = Inr (chat_data (final_flush st))" and
      b: "raw_records (lines @ [line]) =
             Inr (chat_data (final_flush
               (if chat_data st \<noteq> [] then
                  st\<lparr>current_message_lines := current_message_lines st @ [strip (normalize line)]\<rparr>
                else st)))" by blast
    have e: "map message_type (chat_data (final_flush st)) = map message_type (chat_data st)"
      by (rule final_flush_frame(5))
    from snoc.IH[OF a] have "System \<notin> set (map message_type (chat_data st))"
      unfolding e .
    moreover from b snoc.prems have "map message_type records = map message_type (chat_data st)"
      by (auto simp: final_flush_frame split: if_splits)
    ultimately show ?thesis by simp
  next
    case (Some m)
    obtain ts name body where m: "m = (ts, name, body)" by (cases m) auto
    from raw_records_snoc_header[of line ts name body lines] Some m obtain rs where
      a: "raw_records lines = Inr rs" and
      b: "raw_records (lines @ [line]) = Inr (rs @ [header_record ts name body])" by auto
    from snoc.IH[OF a] b snoc.prems header_record_not_system[of ts name body] show ?thesis
      by (auto dest: sym)
  qed
qed

lemma lines_partition:
  "length (filter P lines) + length (takeWhile (\<lambda>l. \<not> P l) lines) +
   length (filter (\<lambda>l. \<not> P l) (dropWhile (\<lambda>l. \<not> P l) lines)) = length lines"
proof -
  have "filter P (takeWhile (\<lambda>l. \<not> P l) lines) = []"
    by (auto simp: filter_empty_conv dest: set_takeWhileD)
  then have "filter P lines = filter P (dropWhile (\<lambda>l. \<not> P l) lines)"
    by (metis append_Nil filter_append takeWhile_dropWhile_id)
  moreover have "length (filter P (dropWhile (\<lambda>l. \<not> P l) lines)) +
      length (filter (\<lambda>l. \<not> P l) (dropWhile (\<lambda>l. \<not> P l) lines)) =
      length (dropWhile (\<lambda>l. \<not> P l) lines)"
    by (rule sum_length_filter_compl)
  moreover have "length (takeWhile (\<lambda>l. \<not> P l) lines) + length (dropWhile (\<lambda>l. \<not> P l) lines) =
      length lines"
    by (metis length_append takeWhile_dropWhile_id)
  ultimately show ?thesis by simp
qed

lemma scan_with_patterns:
  "scan_with header_match (match3 False SYSTEM_MESSAGE_REGEX) st lines = scan st lines"
  by (induction lines arbitrary: st)
     (simp_all add: process_line_def system_match_def Let_def split: sum.splits)



lemma flush_pending_final_flush:
  assumes "flush_pending st = Inr st'"
  shows "chat_data st' = chat_data (final_flush st)" and "current_message_lines st' = []"
  using assms by (auto simp: flush_pending_def final_flush_def split: if_splits list.splits)




lemma message_differs_iff:
  "message_differs k records records' \<longleftrightarrow>
     (\<exists>xs r ys m'. length xs = k \<and> records = xs @ r # ys \<and>
        records' = xs @ r\<lparr>message := m'\<rparr> # ys)"
proof
  assume d: "message_differs k records records'"
  then have k: "k < length records"
    and e: "records' = records[k := (records ! k)\<lparr>message := message (records' ! k)\<rparr>]"
    by (simp_all add: message_differs_def)
  from k have "records = take k records @ records ! k # drop (Suc k) records"
    by (simp add: id_take_nth_drop)
  moreover from k e have "records' =
      take k records @ (records ! k)\<lparr>message := message (records' ! k)\<rparr> # drop (Suc k) records"
    by (metis upd_conv_take_nth_drop)
  moreover from k have "length (take k records) = k" by simp
  ultimately show "\<exists>xs r ys m'. length xs = k \<and> records = xs @ r # ys \<and>
        records' = xs @ r\<lparr>message := m'\<rparr> # ys" by blast
next
  assume "\<exists>xs r ys m'. length xs = k \<and> records = xs @ r # ys \<and>
        records' = xs @ r\<lparr>message := m'\<rparr> # ys"
  then show "message_differs k records records'"
    by (auto simp: message_differs_def nth_append list_update_append)
qed

lemma final_flush_same:
  assumes "chat_data st' = chat_data st"
    and "current_message_lines st' = current_message_lines st"
  shows "chat_data (final_flush st') = chat_data (final_flush st)"
  using assms by (simp add: final_flush_chat_data)

lemma final_flush_differs:
  assumes cd: "chat_data st = xs @ r # ys"
    and cd': "chat_data st' = xs @ r\<lparr>message := m'\<rparr> # ys"
    and cml: "ys \<noteq> [] \<longrightarrow> current_message_lines st' = current_message_lines st"
  shows "\<exists>r2 m2 ys2. chat_data (final_flush st) = xs @ r2 # ys2 \<and>
           chat_data (final_flush st') = xs @ r2\<lparr>message := m2\<rparr> # ys2"
proof (cases "ys = []")
  case True
  let ?r2 = "last (chat_data (final_flush st))"
  let ?m2 = "message (last (chat_data (final_flush st')))"
  have "chat_data (final_flush st) = xs @ ?r2 # []"
    using cd True by (simp add: final_flush_chat_data)
  moreover have "chat_data (final_flush st') = xs @ ?r2\<lparr>message := ?m2\<rparr> # []"
    using cd cd' True by (simp add: final_flush_chat_data)
  ultimately show ?thesis by blast
next
  case False
  with cml have c: "current_message_lines st' = current_message_lines st" by simp
  let ?c = "current_message_lines st"
  let ?ys2 = "if ?c \<noteq> [] then
      butlast ys @ [(last ys)\<lparr>message := message (last ys) @ join [32] ?c\<rparr>] else ys"
  have "chat_data (final_flush st) = xs @ r # ?ys2"
    using cd False by (simp add: final_flush_chat_data butlast_append)
  moreover have "chat_data (final_flush st') = xs @ r\<lparr>message := m'\<rparr> # ?ys2"
    using cd' False c by (simp add: final_flush_chat_data butlast_append)
  ultimately show ?thesis by blast
qed

lemma process_line_same:
  assumes cd: "chat_data st' = chat_data st"
    and cml: "current_message_lines st' = current_message_lines st"
    and s: "process_line st line = Inr s" and s': "process_line st' line = Inr s'"
  shows "chat_data s' = chat_data s \<and> current_message_lines s' = current_message_lines s"
proof (cases "header_match (normalize line)")
  case None
  from s s' cd cml show ?thesis
    unfolding process_line_other[OF None] by (auto split: if_splits)
next
  case (Some h)
  obtain ts name body where h: "h = (ts, name, body)" by (cases h) auto
  let ?st1 = "st\<lparr>matched_count := matched_count st + 1\<rparr>"
  let ?st1' = "st'\<lparr>matched_count := matched_count st' + 1\<rparr>"
  from s Some h obtain f where f: "flush_pending ?st1 = Inr f"
    and e: "s = f\<lparr>chat_data := chat_data f @ [header_record ts name body]\<rparr>"
    by (auto simp: process_line_header split: sum.splits)
  from s' Some h obtain f' where f': "flush_pending ?st1' = Inr f'"
    and e': "s' = f'\<lparr>chat_data := chat_data f' @ [header_record ts name body]\<rparr>"
    by (auto simp: process_line_header split: sum.splits)
  have "chat_data (final_flush ?st1') = chat_data (final_flush ?st1)"
    by (rule final_flush_same) (simp_all add: cd cml)
  with flush_pending_final_flush[OF f] flush_pending_final_flush[OF f'] show ?thesis
    unfolding e e' by simp
qed

lemma process_line_differs:
  assumes cd: "chat_data st = xs @ r # ys"
    and cd': "chat_data st' = xs @ r\<lparr>message := m'\<rparr> # ys"
    and cml: "ys \<noteq> [] \<longrightarrow> current_message_lines st' = current_message_lines st"
    and s: "process_line st line = Inr s" and s': "process_line st' line = Inr s'"
  shows "\<exists>r2 m2 ys2. chat_data s = xs @ r2 # ys2 \<and>
           chat_data s' = xs @ r2\<lparr>message := m2\<rparr> # ys2 \<and>
           (ys2 \<noteq> [] \<longrightarrow> current_message_lines s' = current_message_lines s)"
proof (cases "header_match (normalize line)")
  case None
  from cd have n: "chat_data st \<noteq> []" by simp
  from cd' have n': "chat_data st' \<noteq> []" by simp
  from s n have e: "s = st\<lparr>current_message_lines :=
      current_message_lines st @ [strip (normalize line)]\<rparr>"
    unfolding process_line_other[OF None] by simp
  from s' n' have e': "s' = st'\<lparr>current_message_lines :=
      current_message_lines st' @ [strip (normalize line)]\<rparr>"
    unfolding process_line_other[OF None] by simp
  have "chat_data s = xs @ r # ys" "chat_data s' = xs @ r\<lparr>message := m'\<rparr> # ys"
    "ys \<noteq> [] \<longrightarrow> current_message_lines s' = current_message_lines s"
    using cd cd' cml by (simp_all add: e e')
  then show ?thesis by blast
next
  case (Some h)
  obtain ts name body where h: "h = (ts, name, body)" by (cases h) auto
  let ?st1 = "st\<lparr>matched_count := matched_count st + 1\<rparr>"
  let ?st1' = "st'\<lparr>matched_count := matched_count st' + 1\<rparr>"
  from s Some h obtain f where f: "flush_pending ?st1 = Inr f"
    and e: "s = f\<lparr>chat_data := chat_data f @ [header_record ts name body]\<rparr>"
    by (auto simp: process_line_header split: sum.splits)
  from s' Some h obtain f' where f': "flush_pending ?st1' = Inr f'"
    and e': "s' = f'\<lparr>chat_data := chat_data f' @ [header_record ts name body]\<rparr>"
    by (auto simp: process_line_header split: sum.splits)
  have "\<exists>r2 m2 ys2. chat_data (final_flush ?st1) = xs @ r2 # ys2 \<and>
           chat_data (final_flush ?st1') = xs @ r2\<lparr>message := m2\<rparr> # ys2"
    by (rule final_flush_differs[where r = r and m' = m' and ys = ys]) (simp_all add: cd cd' cml)
  then obtain r2 m2 ys2 where
    a: "chat_data f = xs @ r2 # ys2" and a': "chat_data f' = xs @ r2\<lparr>message := m2\<rparr> # ys2"
    using flush_pending_final_flush(1)[OF f] flush_pending_final_flush(1)[OF f'] by auto
  have "chat_data s = xs @ r2 # (ys2 @ [header_record ts name body])"
    "chat_data s' = xs @ r2\<lparr>message := m2\<rparr> # (ys2 @ [header_record ts name body])"
    "current_message_lines s' = current_message_lines s"
    using a a' flush_pending_final_flush(2)[OF f] flush_pending_final_flush(2)[OF f']
    by (simp_all add: e e')
  then show ?thesis by blast
qed

lemma scan_same:
  assumes "chat_data st' = chat_data st"
    and "current_message_lines st' = current_message_lines st"
    and "scan st lines = Inr s" and "scan st' lines = Inr s'"
  shows "chat_data s' = chat_data s \<and> current_message_lines s' = current_message_lines s"
  using assms
proof (induction lines arbitrary: st st')
  case Nil
  then show ?case by simp
next
  case (Cons line rest)
  from Cons.prems(3) obtain t where t: "process_line st line = Inr t" and r: "scan t rest = Inr s"
    by (auto split: sum.splits)
  from Cons.prems(4) obtain t' where t': "process_line st' line = Inr t'"
    and r': "scan t' rest = Inr s'"
    by (auto split: sum.splits)
  from process_line_same[OF Cons.prems(1,2) t t']
  have "chat_data t' = chat_data t" "current_message_lines t' = current_message_lines t"
    by simp_all
  from Cons.IH[OF this r r'] show ?case .
qed

lemma scan_differs:
  assumes "chat_data st = xs @ r # ys"
    and "chat_data st' = xs @ r\<lparr>message := m'\<rparr> # ys"
    and "ys \<noteq> [] \<longrightarrow> current_message_lines st' = current_message_lines st"
    and "scan st lines = Inr s" and "scan st' lines = Inr s'"
  shows "\<exists>r2 m2 ys2. chat_data s = xs @ r2 # ys2 \<and>
           chat_data s' = xs @ r2\<lparr>message := m2\<rparr> # ys2 \<and>
           (ys2 \<noteq> [] \<longrightarrow> current_message_lines s' = current_message_lines s)"
  using assms
proof (induction lines arbitrary: st st' r m' ys)
  case Nil
  then show ?case by auto
next
  case (Cons line rest)
  from Cons.prems(4) obtain t where t: "process_line st line = Inr t" and r: "scan t rest = Inr s"
    by (auto split: sum.splits)
  from Cons.prems(5) obtain t' where t': "process_line st' line = Inr t'"
    and r': "scan t' rest = Inr s'"
    by (auto split: sum.splits)
  from process_line_differs[OF Cons.prems(1,2,3) t t'] obtain r2 m2 ys2 where
    "chat_data t = xs @ r2 # ys2" "chat_data t' = xs @ r2\<lparr>message := m2\<rparr> # ys2"
    "ys2 \<noteq> [] \<longrightarrow> current_message_lines t' = current_message_lines t"
    by blast
  from Cons.IH[OF this r r'] show ?case .
qed

section \<open>The frame\<close>

lemma stable_sort_sorts: "sorts_by_timestamp stable_sort"
  by (simp add: sorts_by_timestamp_def stable_sort_def)

lemma zip_map_same: "zip xs (map f xs) = map (\<lambda>x. (x, f x)) xs"
  by (induction xs) auto

lemma stamped_eq:
  "stamped td tdm records =
     map (\<lambda>r. (r, converter td tdm records (timestamp_str r))) records"
proof -
  have "timestamps td tdm (map timestamp_str records) =
        map (\<lambda>r. converter td tdm records (timestamp_str r)) records"
    by (simp add: timestamps_def converter_def split: option.splits)
  then show ?thesis by (simp add: stamped_def zip_map_same)
qed

lemma dropna_map:
  "dropna (map (\<lambda>r. (r, c r)) rs) = map (\<lambda>r. (r, the (c r))) (filter (\<lambda>r. c r \<noteq> None) rs)"
proof (induction rs)
  case Nil
  then show ?case by simp
next
  case (Cons r rs)
  then show ?case by (cases "c r") auto
qed

lemma dropna_stamped:
  "dropna (stamped td tdm records) =
     map (\<lambda>r. (r, the (converter td tdm records (timestamp_str r))))
       (filter (\<lambda>r. converter td tdm records (timestamp_str r) \<noteq> None) records)"
  by (simp add: stamped_eq dropna_map)

lemma null_timestamps_eq:
  "null_timestamps td tdm records =
     length (filter (\<lambda>r. converter td tdm records (timestamp_str r) = None) records)"
  by (simp add: null_timestamps_def stamped_eq filter_map o_def)

lemma parse_chat_file_Some:
  assumes "raw_records lines = Inr records"
  shows "parse_chat_file td tdm srt (Some lines) =
           Inr (map chat_row_of (if records = [] then [] else srt (dropna (stamped td tdm records))))"
  using assms by (simp add: parse_chat_file_def)

lemma parse_chat_file_total: "\<exists>rows. parse_chat_file td tdm srt file = Inr rows"
proof (cases "file")
  case None
  then show ?thesis by (simp add: parse_chat_file_def)
next
  case (Some lines)
  obtain records where "raw_records lines = Inr records" using raw_records_total by blast
  from parse_chat_file_Some[OF this] Some show ?thesis by blast
qed

lemma sorts_by_timestamp_Nil: "sorts_by_timestamp srt \<Longrightarrow> srt [] = []"
  by (metis sorts_by_timestamp_def mset_zero_iff)

lemma parse_chat_file_sorted:
  assumes "sorts_by_timestamp srt" and "raw_records lines = Inr records"
  shows "parse_chat_file td tdm srt (Some lines) =
           Inr (map chat_row_of (srt (dropna (stamped td tdm records))))"
proof (cases "records = []")
  case True
  then show ?thesis using assms
    by (simp add: parse_chat_file_Some stamped_def sorts_by_timestamp_Nil)
next
  case False
  then show ?thesis using assms by (simp add: parse_chat_file_Some)
qed

section \<open>Evaluating the parser on given lines\<close>

lemmas string_defs =
  str_def isdecimal_def isspace_def same_char_def lower_def strip_def replace_def

lemmas regex_defs =
  re_match_def match3_def WHATSAPP_CHAT_REGEX_def WHATSAPP_LEGACY_REGEX_def
  SYSTEM_MESSAGE_REGEX_def TIMESTAMP_def seq_def

lemmas parser_defs =
  header_match_def system_match_def normalize_def process_line_def apply_match_def flush_pending_def
  header_record_def system_record_def final_flush_def scan_lines_def raw_records_def
  initial_state_def MEDIA_OMITTED_MSG_def FILE_ATTACHED_def

lemmas pandas_defs =
  parse_chat_file_def stamped_def timestamps_def chat_row_of_def null_timestamps_def
  table_to_datetime_def table_to_datetime_mixed_def stable_sort_def
  example_clock_def converter_def

lemma starts_record_examples:
  "\<not> starts_record (str ''hello'')"
  "starts_record (str ''[01/02/2023, 09:15:00 AM] Alice: line one'')"
  "\<not> starts_record (str ''line two'')"
  "\<not> starts_record (str ''<Media omitted>'')"
  by (simp_all add: starts_record_def parser_defs string_defs regex_defs)

lemma one_header_records:
  "raw_records [str ''[01/02/2023, 09:15:00 AM] Alice: hello''] =
     Inr [\<lparr>sender = str ''Alice'', message = str ''hello'', message_type = Text,
           media_filename = None, timestamp_str = str ''01/02/2023, 09:15:00 AM''\<rparr>]"
  by (simp add: parser_defs string_defs regex_defs)

lemma three_headers_records:
  "raw_records [str ''[01/02/2023, 09:15:00 AM] Alice: hello'',
                str ''[99/99/9999, 99:99] Bob: lost'',
                str ''[01/02/2023, 09:15:30 AM] Bob: hi there''] =
     Inr [\<lparr>sender = str ''Alice'', message = str ''hello'', message_type = Text,
           media_filename = None, timestamp_str = str ''01/02/2023, 09:15:00 AM''\<rparr>,
          \<lparr>sender = str ''Bob'', message = str ''lost'', message_type = Text,
           media_filename = None, timestamp_str = str ''99/99/9999, 99:99''\<rparr>,
          \<lparr>sender = str ''Bob'', message = str ''hi there'', message_type = Text,
           media_filename = None, timestamp_str = str ''01/02/2023, 09:15:30 AM''\<rparr>]"
  by (simp add: parser_defs string_defs regex_defs)


section \<open>The claims\<close>

text \<open>
  C2, at its own example. The claim: the trimmed text of each continuation line is
  appended to the body of the record joined by a single space, so that the lines
  \<open>[01/02/2023, 09:15:00 AM] Alice: line one\<close> and \<open>line two\<close> give one record with
  the message \<open>line one line two\<close>. Lines 100, 134 and 160 join the pending lines with
  a space but append the result to the body with nothing in between: the record's
  message is \<open>line oneline two\<close>, for the two lines as the claim writes them and for
  the two lines each ended by a newline (code point 10), as \<open>readlines()\<close> returns
  them.
\<close>

theorem continuation_appended_without_space:
  "raw_records [str ''[01/02/2023, 09:15:00 AM] Alice: line one'', str ''line two''] =
     Inr [\<lparr>sender = str ''Alice'', message = str ''line oneline two'',
           message_type = Text, media_filename = None,
           timestamp_str = str ''01/02/2023, 09:15:00 AM''\<rparr>] \<and>
   raw_records [str ''[01/02/2023, 09:15:00 AM] Alice: line one'' @ [10],
                str ''line two'' @ [10]] =
     Inr [\<lparr>sender = str ''Alice'', message = str ''line oneline two'',
           message_type = Text, media_filename = None,
           timestamp_str = str ''01/02/2023, 09:15:00 AM''\<rparr>]"
  by (simp add: parser_defs string_defs regex_defs)

text \<open>
  C3. The claim: the system-notice pattern is tried only on lines that the bracket
  pattern and the legacy pattern reject, and it accepts some of them. It is tried only
  there (\<open>system_match\<close>, line 94), but it accepts none of them:
  \<open>SYSTEM_MESSAGE_REGEX\<close> is the bracket pattern without \<open>re.IGNORECASE\<close> and with
  \<open>(.+)\<close> for \<open>(.*)\<close>, so whatever it matches the bracket pattern has matched before.
  The branch of lines 131--147 is never taken.
\<close>

theorem system_pattern_accepts_no_rejected_line:
  "system_match normalized_line = None"
proof (cases "header_match normalized_line = None")
  case True
  then have "match3 True WHATSAPP_CHAT_REGEX normalized_line = None"
    by (auto simp: header_match_def split: option.splits)
  then have "re_match True WHATSAPP_CHAT_REGEX normalized_line = None"
    by (simp add: match3_CHAT_iff)
  then have "re_match False SYSTEM_MESSAGE_REGEX normalized_line = None"
    using system_implies_chat by blast
  then show ?thesis by (simp add: system_match_def match3_def)
next
  case False
  then show ?thesis by (auto simp: system_match_def)
qed

text \<open>
  The notice of the repository's own \<open>debug_regex.py\<close>, with the left-to-right mark
  (code point 8206) after the colon: the bracket pattern takes it, and it becomes a
  text message of the sender named in the header, not a system record.
\<close>

lemma encrypted_notice_is_text:
  "raw_records [str ''[11/19/25, 6:41:43 PM] Family: '' @ [8206] @
                str ''Messages and calls are end-to-end encrypted.''] =
     Inr [\<lparr>sender = str ''Family'',
           message = str ''Messages and calls are end-to-end encrypted.'',
           message_type = Text, media_filename = None,
           timestamp_str = str ''11/19/25, 6:41:43 PM''\<rparr>]"
  by (simp add: parser_defs string_defs regex_defs)




text \<open>
  C5. The claim: a header whose body has the attached-file marker gives the type voice
  note exactly when the extension of the file name is that of a voice note, and media
  otherwise. Line 122 asks whether \<open>.opus\<close> occurs anywhere in the file name. The
  file name \<open>notes.opus.txt\<close> has the extension \<open>txt\<close> and gives a voice note; the
  transcription step, which goes by the end of the name, does not take the file as audio.
\<close>

theorem opus_inside_the_name_is_voice_note:
  "raw_records [str ''[01/02/2023, 09:15:00 AM] Alice: notes.opus.txt (file attached)''] =
     Inr [\<lparr>sender = str ''Alice'', message = [], message_type = VoiceNote,
           media_filename = Some (str ''notes.opus.txt''),
           timestamp_str = str ''01/02/2023, 09:15:00 AM''\<rparr>] \<and>
   spec_extension (str ''notes.opus.txt'') = str ''txt'' \<and>
   audio_files [(str ''media/notes.opus.txt'', str ''notes.opus.txt'')] = []"
proof (intro conjI)
  show "raw_records [str ''[01/02/2023, 09:15:00 AM] Alice: notes.opus.txt (file attached)''] =
     Inr [\<lparr>sender = str ''Alice'', message = [], message_type = VoiceNote,
           media_filename = Some (str ''notes.opus.txt''),
           timestamp_str = str ''01/02/2023, 09:15:00 AM''\<rparr>]"
    by (simp add: parser_defs string_defs regex_defs)
  show "spec_extension (str ''notes.opus.txt'') = str ''txt''"
    by (simp add: spec_extension_def str_def)
  show "audio_files [(str ''media/notes.opus.txt'', str ''notes.opus.txt'')] = []"
    by (simp add: audio_files_def endswith_def str_def)
qed

text \<open>
  The example of the claim: the body \<open>note.opus (file attached)\<close> gives a voice note
  with the file name \<open>note.opus\<close> and an empty message, and the transcription step
  takes the file.
\<close>

lemma attached_voice_note_example:
  "raw_records [str ''[01/02/2023, 09:15:00 AM] Alice: note.opus (file attached)''] =
     Inr [\<lparr>sender = str ''Alice'', message = [], message_type = VoiceNote,
           media_filename = Some (str ''note.opus''),
           timestamp_str = str ''01/02/2023, 09:15:00 AM''\<rparr>]"
  "audio_files [(str ''media/note.opus'', str ''note.opus'')] =
     [(str ''media/note.opus'', str ''note.opus'')]"
  by (simp_all add: parser_defs string_defs regex_defs audio_files_def endswith_def)

text \<open>
  C6. The claim: \<open>matched_count + unmatched_count\<close> is the number of non-empty lines,
  a continuation line that arrives while a record is open counting as matched. The
  loop counts such a line in neither counter (lines 149--151). What it counts:
  \<open>matched_count\<close> is the number of lines that start a record, \<open>unmatched_count\<close>
  the number of lines before the first of them, empty lines included; the two and the
  number of lines after the first header that start no record add up to the number of
  lines.
\<close>

theorem counts_of_lines:
  "line_counts lines =
     Inr (length (filter starts_record lines),
          length (takeWhile (\<lambda>l. \<not> starts_record l) lines)) \<and>
   length (filter starts_record lines) +
   length (takeWhile (\<lambda>l. \<not> starts_record l) lines) +
   length (filter (\<lambda>l. \<not> starts_record l) (dropWhile (\<lambda>l. \<not> starts_record l) lines)) =
     length lines"
proof
  obtain st where st: "scan initial_state lines = Inr st" using scan_initial_total by blast
  have i: "matched_count initial_state = 0" "unmatched_count initial_state = 0"
    "chat_data initial_state = []" by (simp_all add: initial_state_def)
  from scan_counts[OF st] show "line_counts lines =
     Inr (length (filter starts_record lines),
          length (takeWhile (\<lambda>l. \<not> starts_record l) lines))"
    by (simp add: line_counts_def scan_lines_def st final_flush_counts i)
  show "length (filter starts_record lines) +
   length (takeWhile (\<lambda>l. \<not> starts_record l) lines) +
   length (filter (\<lambda>l. \<not> starts_record l) (dropWhile (\<lambda>l. \<not> starts_record l) lines)) =
     length lines"
    by (rule lines_partition)
qed

text \<open>
  A line before the first header, a header and a continuation line: one matched, one
  unmatched.
\<close>

theorem counts_of_lines_witness:
  "line_counts [str ''hello'', str ''[01/02/2023, 09:15:00 AM] Alice: line one'',
                str ''line two''] = Inr (1, 1)"
  using counts_of_lines
    [of "[str ''hello'', str ''[01/02/2023, 09:15:00 AM] Alice: line one'', str ''line two'']"]
  by (simp add: starts_record_examples)

text \<open>
  The two lines of the example of C2 are both non-empty; one is counted.
\<close>

theorem counts_skip_continuation_lines:
  "line_counts [str ''[01/02/2023, 09:15:00 AM] Alice: line one'', str ''line two''] = Inr (1, 0) \<and>
   length (filter (\<lambda>l. strip l \<noteq> [])
     [str ''[01/02/2023, 09:15:00 AM] Alice: line one'', str ''line two'']) = 2"
  by (simp add: line_counts_def parser_defs string_defs regex_defs)

text \<open>
  C8. A record whose timestamp text the conversion turns into \<open>NaT\<close> is not in the
  returned frame, the number logged at line 215 is the number of such records, every
  other record is in the frame with its timestamp, and the call returns: for every sort
  that permutes the rows into non-decreasing order, the rows of the frame are, as a
  multiset, the records with a timestamp, and the rows and the dropped records add up
  to the records.
\<close>

theorem unparsable_timestamps_dropped:
  assumes "sorts_by_timestamp sort_values"
  shows "\<exists>records rows.
           raw_records lines = Inr records \<and>
           parse_chat_file to_datetime to_datetime_mixed sort_values (Some lines) = Inr rows \<and>
           mset rows =
             image_mset
               (\<lambda>r. chat_row_of
                      (r, the (converter to_datetime to_datetime_mixed records (timestamp_str r))))
               (filter_mset
                  (\<lambda>r. converter to_datetime to_datetime_mixed records (timestamp_str r) \<noteq> None)
                  (mset records)) \<and>
           null_timestamps to_datetime to_datetime_mixed records =
             size (filter_mset
                  (\<lambda>r. converter to_datetime to_datetime_mixed records (timestamp_str r) = None)
                  (mset records)) \<and>
           length rows + null_timestamps to_datetime to_datetime_mixed records = length records"
proof -
  obtain records where r: "raw_records lines = Inr records" using raw_records_total by blast
  let ?c = "converter to_datetime to_datetime_mixed records"
  let ?kept = "dropna (stamped to_datetime to_datetime_mixed records)"
  let ?rows = "map chat_row_of (sort_values ?kept)"
  have p: "parse_chat_file to_datetime to_datetime_mixed sort_values (Some lines) = Inr ?rows"
    by (rule parse_chat_file_sorted[OF assms r])
  have m: "mset (sort_values ?kept) = mset ?kept"
    using assms by (simp add: sorts_by_timestamp_def)
  have "mset ?rows = image_mset chat_row_of (mset (sort_values ?kept))" by simp
  also have "\<dots> = image_mset chat_row_of (mset ?kept)" by (simp only: m)
  also have "\<dots> = image_mset (\<lambda>r. chat_row_of (r, the (?c (timestamp_str r))))
                    (filter_mset (\<lambda>r. ?c (timestamp_str r) \<noteq> None) (mset records))"
    by (simp add: dropna_stamped multiset.map_comp o_def flip: mset_filter mset_map)
  finally have a: "mset ?rows = image_mset (\<lambda>r. chat_row_of (r, the (?c (timestamp_str r))))
                    (filter_mset (\<lambda>r. ?c (timestamp_str r) \<noteq> None) (mset records))" .
  have b: "null_timestamps to_datetime to_datetime_mixed records =
             size (filter_mset (\<lambda>r. ?c (timestamp_str r) = None) (mset records))"
    by (simp add: null_timestamps_eq flip: mset_filter)
  have "length ?rows = length ?kept" using m by (metis length_map size_mset)
  also have "\<dots> = length (filter (\<lambda>r. ?c (timestamp_str r) \<noteq> None) records)"
    by (simp add: dropna_stamped)
  finally have "length ?rows + null_timestamps to_datetime to_datetime_mixed records =
      length (filter (\<lambda>r. ?c (timestamp_str r) \<noteq> None) records) +
      length (filter (\<lambda>r. \<not> ?c (timestamp_str r) \<noteq> None) records)"
    by (simp add: null_timestamps_eq)
  then have c: "length ?rows + null_timestamps to_datetime to_datetime_mixed records = length records"
    by (simp only: sum_length_filter_compl)
  from r p a b c show ?thesis by blast
qed

text \<open>
  Three headers, the second with a timestamp text that the conversion does not know:
  two rows, one dropped.
\<close>

theorem unparsable_timestamps_dropped_witness:
  "sorts_by_timestamp stable_sort \<and>
   (\<exists>records rows.
      raw_records [str ''[01/02/2023, 09:15:00 AM] Alice: hello'',
                   str ''[99/99/9999, 99:99] Bob: lost'',
                   str ''[01/02/2023, 09:15:30 AM] Bob: hi there''] = Inr records \<and>
      parse_chat_file (table_to_datetime example_clock) (table_to_datetime_mixed example_clock)
        stable_sort
        (Some [str ''[01/02/2023, 09:15:00 AM] Alice: hello'',
               str ''[99/99/9999, 99:99] Bob: lost'',
               str ''[01/02/2023, 09:15:30 AM] Bob: hi there'']) = Inr rows \<and>
      map sender rows = [str ''Alice'', str ''Bob''] \<and>
      map message rows = [str ''hello'', str ''hi there''] \<and>
      null_timestamps (table_to_datetime example_clock) (table_to_datetime_mixed example_clock)
        records = 1 \<and>
      length rows + 1 = length records)"
proof -
  let ?lines = "[str ''[01/02/2023, 09:15:00 AM] Alice: hello'',
                 str ''[99/99/9999, 99:99] Bob: lost'',
                 str ''[01/02/2023, 09:15:30 AM] Bob: hi there'']"
  let ?td = "table_to_datetime example_clock"
  let ?tdm = "table_to_datetime_mixed example_clock"
  from unparsable_timestamps_dropped[OF stable_sort_sorts, of ?lines ?td ?tdm]
  obtain records rows where
    r: "raw_records ?lines = Inr records" and
    p: "parse_chat_file ?td ?tdm stable_sort (Some ?lines) = Inr rows" and
    l: "length rows + null_timestamps ?td ?tdm records = length records"
    by blast
  from r three_headers_records have rec: "records =
     [\<lparr>sender = str ''Alice'', message = str ''hello'', message_type = Text,
           media_filename = None, timestamp_str = str ''01/02/2023, 09:15:00 AM''\<rparr>,
          \<lparr>sender = str ''Bob'', message = str ''lost'', message_type = Text,
           media_filename = None, timestamp_str = str ''99/99/9999, 99:99''\<rparr>,
          \<lparr>sender = str ''Bob'', message = str ''hi there'', message_type = Text,
           media_filename = None, timestamp_str = str ''01/02/2023, 09:15:30 AM''\<rparr>]"
    by simp
  have n: "null_timestamps ?td ?tdm records = 1"
    unfolding rec by (simp add: pandas_defs str_def)
  have e: "parse_chat_file ?td ?tdm stable_sort (Some ?lines) =
      Inr [\<lparr>sender = str ''Alice'', message = str ''hello'', message_type = Text,
           media_filename = None, timestamp = 1\<rparr>,
          \<lparr>sender = str ''Bob'', message = str ''hi there'', message_type = Text,
           media_filename = None, timestamp = 2\<rparr>]"
    unfolding parse_chat_file_Some[OF three_headers_records]
    by (simp add: pandas_defs str_def)
  from p e have "map sender rows = [str ''Alice'', str ''Bob'']"
    "map message rows = [str ''hello'', str ''hi there'']" by auto
  with r p l n stable_sort_sorts show ?thesis by auto
qed

text \<open>
  C9. The call always returns a frame: \<open>chat_data[-1]\<close> is never evaluated on an
  empty list, and the conversion of line 210 is taken to return. When the file cannot
  be opened or read, the frame is empty; when no line starts a record
  (\<open>matched_count\<close> is 0), the frame is empty.
\<close>

theorem parse_never_raises:
  "(\<exists>rows. parse_chat_file to_datetime to_datetime_mixed sort_values file = Inr rows) \<and>
   parse_chat_file to_datetime to_datetime_mixed sort_values None = Inr [] \<and>
   (line_counts lines = Inr (0, n) \<longrightarrow>
      parse_chat_file to_datetime to_datetime_mixed sort_values (Some lines) = Inr [])"
proof (intro conjI impI)
  show "\<exists>rows. parse_chat_file to_datetime to_datetime_mixed sort_values file = Inr rows"
    by (rule parse_chat_file_total)
  show "parse_chat_file to_datetime to_datetime_mixed sort_values None = Inr []"
    by (simp add: parse_chat_file_def)
  assume "line_counts lines = Inr (0, n)"
  then have z: "length (filter starts_record lines) = 0" by (simp add: line_counts_eq)
  obtain records where r: "raw_records lines = Inr records" using raw_records_total by blast
  from raw_records_length[OF r] z have "records = []" by simp
  with r show "parse_chat_file to_datetime to_datetime_mixed sort_values (Some lines) = Inr []"
    by (simp add: parse_chat_file_Some)
qed

theorem parse_never_raises_witness:
  "line_counts [str ''hello''] = Inr (0, 1) \<and>
   parse_chat_file (table_to_datetime example_clock) (table_to_datetime_mixed example_clock)
     stable_sort (Some [str ''hello'']) = Inr []"
proof -
  have c: "line_counts [str ''hello''] = Inr (0, 1)"
    by (simp add: line_counts_def parser_defs string_defs regex_defs)
  from parse_never_raises
    [of "table_to_datetime example_clock" "table_to_datetime_mixed example_clock" stable_sort
        "None" "[str ''hello'']" 1] c
  show ?thesis by simp
qed

text \<open>
  C10. A line that starts no record, wherever it stands in the input: with the line
  and without it the parser builds the same records, but for the message of the record
  that is open when the line arrives, the last record of the lines before it; when no
  record is open, nothing differs. The lines after it are arbitrary, so the flush of
  lines 99--101 at the next header is covered as well as that of lines 158--160 at the
  end. Nothing is asked of the text of the line, so a marker token on it changes neither
  the type nor the file name.
\<close>

theorem continuation_changes_message_only:
  assumes "\<not> starts_record line"
  shows "\<exists>before records records'.
           raw_records pre = Inr before \<and>
           raw_records (pre @ post) = Inr records \<and>
           raw_records (pre @ [line] @ post) = Inr records' \<and>
           (if before = [] then records' = records
            else message_differs (length before - 1) records records')"
proof -
  from assms have h: "header_match (normalize line) = None"
    unfolding starts_record_def by blast
  obtain st0 where st0: "scan initial_state pre = Inr st0"
    and inv0: "current_message_lines st0 \<noteq> [] \<longrightarrow> chat_data st0 \<noteq> []"
    using scan_initial_total by blast
  let ?st1 = "if chat_data st0 \<noteq> [] then
        st0\<lparr>current_message_lines := current_message_lines st0 @ [strip (normalize line)]\<rparr>
      else
        st0\<lparr>unmatched_count := unmatched_count st0 + 1,
            unmatched_samples :=
              (if length (unmatched_samples st0) < 3
               then unmatched_samples st0 @ [strip (normalize line)]
               else unmatched_samples st0)\<rparr>"
  have p: "process_line st0 line = Inr ?st1"
    unfolding process_line_other[OF h] by simp
  have inv1: "current_message_lines ?st1 \<noteq> [] \<longrightarrow> chat_data ?st1 \<noteq> []"
    using inv0 by auto
  obtain s where s: "scan st0 post = Inr s" using scan_total[OF inv0] by blast
  obtain s' where s': "scan ?st1 post = Inr s'" using scan_total[OF inv1] by blast
  have b: "raw_records pre = Inr (chat_data (final_flush st0))"
    by (simp add: raw_records_def scan_lines_def st0)
  have r: "raw_records (pre @ post) = Inr (chat_data (final_flush s))"
    by (simp add: raw_records_def scan_lines_def scan_append st0 s)
  have "scan initial_state (pre @ [line] @ post) = Inr s'"
    using st0 p s' by (simp add: scan_append)
  then have r': "raw_records (pre @ [line] @ post) = Inr (chat_data (final_flush s'))"
    by (simp add: raw_records_def scan_lines_def)
  have l: "length (chat_data (final_flush st0)) = length (chat_data st0)"
    by (rule final_flush_frame(1))
  have "if chat_data (final_flush st0) = []
        then chat_data (final_flush s') = chat_data (final_flush s)
        else message_differs (length (chat_data (final_flush st0)) - 1)
               (chat_data (final_flush s)) (chat_data (final_flush s'))"
  proof (cases "chat_data st0 = []")
    case True
    then have "chat_data ?st1 = chat_data st0"
      "current_message_lines ?st1 = current_message_lines st0" by simp_all
    from scan_same[OF this s s']
    have "chat_data (final_flush s') = chat_data (final_flush s)"
      by (intro final_flush_same) simp_all
    moreover from True l have "chat_data (final_flush st0) = []" by simp
    ultimately show ?thesis by simp
  next
    case False
    let ?xs = "butlast (chat_data st0)"
    let ?r = "last (chat_data st0)"
    from False have "chat_data st0 = ?xs @ ?r # []" by simp
    moreover from False have "chat_data ?st1 = ?xs @ ?r\<lparr>message := message ?r\<rparr> # []" by simp
    moreover have "([]::raw_message list) \<noteq> [] \<longrightarrow>
        current_message_lines ?st1 = current_message_lines st0" by simp
    ultimately obtain r2 m2 ys2 where
      "chat_data s = ?xs @ r2 # ys2" "chat_data s' = ?xs @ r2\<lparr>message := m2\<rparr> # ys2"
      "ys2 \<noteq> [] \<longrightarrow> current_message_lines s' = current_message_lines s"
      using scan_differs[OF _ _ _ s s'] by blast
    from final_flush_differs[OF this] obtain r3 m3 ys3 where
      "chat_data (final_flush s) = ?xs @ r3 # ys3"
      "chat_data (final_flush s') = ?xs @ r3\<lparr>message := m3\<rparr> # ys3" by blast
    moreover have "length ?xs = length (chat_data (final_flush st0)) - 1" by (simp add: l)
    ultimately have "message_differs (length (chat_data (final_flush st0)) - 1)
        (chat_data (final_flush s)) (chat_data (final_flush s'))"
      unfolding message_differs_iff by blast
    moreover from False l have "chat_data (final_flush st0) \<noteq> []" by auto
    ultimately show ?thesis by simp
  qed
  with b r r' show ?thesis by blast
qed

text \<open>
  A header, the line \<open><Media omitted>\<close>, and a second header: the first record keeps
  the type text and has no file name; its message alone differs.
\<close>

theorem continuation_changes_message_only_witness:
  "\<not> starts_record (str ''<Media omitted>'') \<and>
   raw_records [str ''[01/02/2023, 09:15:00 AM] Alice: line one''] =
     Inr [\<lparr>sender = str ''Alice'', message = str ''line one'', message_type = Text,
           media_filename = None, timestamp_str = str ''01/02/2023, 09:15:00 AM''\<rparr>] \<and>
   raw_records ([str ''[01/02/2023, 09:15:00 AM] Alice: line one''] @
                [str ''[01/02/2023, 09:15:30 AM] Bob: hi there'']) =
     Inr [\<lparr>sender = str ''Alice'', message = str ''line one'', message_type = Text,
           media_filename = None, timestamp_str = str ''01/02/2023, 09:15:00 AM''\<rparr>,
          \<lparr>sender = str ''Bob'', message = str ''hi there'', message_type = Text,
           media_filename = None, timestamp_str = str ''01/02/2023, 09:15:30 AM''\<rparr>] \<and>
   raw_records ([str ''[01/02/2023, 09:15:00 AM] Alice: line one''] @
                [str ''<Media omitted>''] @
                [str ''[01/02/2023, 09:15:30 AM] Bob: hi there'']) =
     Inr [\<lparr>sender = str ''Alice'', message = str ''line one<Media omitted>'',
           message_type = Text, media_filename = None,
           timestamp_str = str ''01/02/2023, 09:15:00 AM''\<rparr>,
          \<lparr>sender = str ''Bob'', message = str ''hi there'', message_type = Text,
           media_filename = None, timestamp_str = str ''01/02/2023, 09:15:30 AM''\<rparr>] \<and>
   message_differs 0
     [\<lparr>sender = str ''Alice'', message = str ''line one'', message_type = Text,
       media_filename = None, timestamp_str = str ''01/02/2023, 09:15:00 AM''\<rparr>,
      \<lparr>sender = str ''Bob'', message = str ''hi there'', message_type = Text,
       media_filename = None, timestamp_str = str ''01/02/2023, 09:15:30 AM''\<rparr>]
     [\<lparr>sender = str ''Alice'', message = str ''line one<Media omitted>'',
       message_type = Text, media_filename = None,
       timestamp_str = str ''01/02/2023, 09:15:00 AM''\<rparr>,
      \<lparr>sender = str ''Bob'', message = str ''hi there'', message_type = Text,
       media_filename = None, timestamp_str = str ''01/02/2023, 09:15:30 AM''\<rparr>]"
proof -
  let ?pre = "[str ''[01/02/2023, 09:15:00 AM] Alice: line one'']"
  let ?post = "[str ''[01/02/2023, 09:15:30 AM] Bob: hi there'']"
  have n: "\<not> starts_record (str ''<Media omitted>'')" by (rule starts_record_examples(4))
  have b: "raw_records ?pre =
     Inr [\<lparr>sender = str ''Alice'', message = str ''line one'', message_type = Text,
           media_filename = None, timestamp_str = str ''01/02/2023, 09:15:00 AM''\<rparr>]"
    by (simp add: parser_defs string_defs regex_defs)
  have r: "raw_records (?pre @ ?post) =
     Inr [\<lparr>sender = str ''Alice'', message = str ''line one'', message_type = Text,
           media_filename = None, timestamp_str = str ''01/02/2023, 09:15:00 AM''\<rparr>,
          \<lparr>sender = str ''Bob'', message = str ''hi there'', message_type = Text,
           media_filename = None, timestamp_str = str ''01/02/2023, 09:15:30 AM''\<rparr>]"
    by (simp add: parser_defs string_defs regex_defs)
  have r': "raw_records (?pre @ [str ''<Media omitted>''] @ ?post) =
     Inr [\<lparr>sender = str ''Alice'', message = str ''line one<Media omitted>'',
           message_type = Text, media_filename = None,
           timestamp_str = str ''01/02/2023, 09:15:00 AM''\<rparr>,
          \<lparr>sender = str ''Bob'', message = str ''hi there'', message_type = Text,
           media_filename = None, timestamp_str = str ''01/02/2023, 09:15:30 AM''\<rparr>]"
    by (simp add: parser_defs string_defs regex_defs)
  from continuation_changes_message_only[OF n, of ?pre ?post]
  obtain before records records' where
    "raw_records ?pre = Inr before" "raw_records (?pre @ ?post) = Inr records"
    "raw_records (?pre @ [str ''<Media omitted>''] @ ?post) = Inr records'"
    "if before = [] then records' = records
     else message_differs (length before - 1) records records'"
    by blast
  with b r r' have "message_differs 0
     [\<lparr>sender = str ''Alice'', message = str ''line one'', message_type = Text,
       media_filename = None, timestamp_str = str ''01/02/2023, 09:15:00 AM''\<rparr>,
      \<lparr>sender = str ''Bob'', message = str ''hi there'', message_type = Text,
       media_filename = None, timestamp_str = str ''01/02/2023, 09:15:30 AM''\<rparr>]
     [\<lparr>sender = str ''Alice'', message = str ''line one<Media omitted>'',
       message_type = Text, media_filename = None,
       timestamp_str = str ''01/02/2023, 09:15:00 AM''\<rparr>,
      \<lparr>sender = str ''Bob'', message = str ''hi there'', message_type = Text,
       media_filename = None, timestamp_str = str ''01/02/2023, 09:15:30 AM''\<rparr>]"
    by auto
  with n b r r' show ?thesis by simp
qed

end
